theory Spec2Isabelle
  imports Main "HOL-Library.Word" "HOL-Library.Multiset" "HOL-Library.List_Lexorder"
begin

section \<open>The RowSet range index of src/tablet/rowset_tree.cc\<close>

text \<open>
  The file under study is \<^verbatim>\<open>src/tablet/rowset_tree.cc\<close>: the build operation
  \<^verbatim>\<open>RowSetTree::Reset\<close> and the two queries \<^verbatim>\<open>FindRowSetsWithKeyInRange\<close> and
  \<^verbatim>\<open>FindRowSetsIntersectingInterval\<close>.  Its collaborators (\<^verbatim>\<open>util/slice.h\<close>,
  \<^verbatim>\<open>util/status.h\<close>, \<^verbatim>\<open>tablet/rowset.h\<close>, \<^verbatim>\<open>tablet/rowset_tree.h\<close> and
  \<^verbatim>\<open>util/interval_tree.h\<close>) are not among the sources; each is modelled below from the
  specification and from the way \<^verbatim>\<open>rowset_tree.cc\<close> uses it, and is marked as such.
\<close>

subsection \<open>Byte strings and their comparison\<close>

type_synonym byte = "8 word"

text \<open>
  Modelled from the spec: \<^verbatim>\<open>Slice\<close> of \<^verbatim>\<open>util/slice.h\<close> is missing.  A slice is a
  sequence of raw bytes (a data pointer with a size); a \<^verbatim>\<open>std::string\<close> made by
  \<^verbatim>\<open>ToString\<close> holds the same bytes, so both are byte lists.
\<close>

type_synonym Slice = "byte list"

text \<open>
  Modelled from the spec: the comparison of \<^verbatim>\<open>util/slice.h\<close> is missing; the spec calls
  it the byte-lexicographic comparison over the key's raw bytes.  \<open>MemCmp\<close> walks two
  equally long byte runs and reports the sign at the first differing byte (bytes compare
  unsigned); \<open>Slice_compare\<close> compares the common prefix and then lets the shorter slice
  come first.  Only the sign of the result is used by the callers.
\<close>

fun MemCmp :: "byte list \<Rightarrow> byte list \<Rightarrow> int" where
  "MemCmp (x # xs) (y # ys) = (if x < y then - 1 else if y < x then 1 else MemCmp xs ys)"
| "MemCmp _ _ = 0"

text \<open>Modelled from the spec: \<^verbatim>\<open>Slice::compare\<close>, byte-lexicographic, a proper prefix first.\<close>

definition Slice_compare :: "Slice \<Rightarrow> Slice \<Rightarrow> int" where
  "Slice_compare a b =
     (let min_len = (if length a < length b then length a else length b);
          r = MemCmp (take min_len a) (take min_len b)
      in if r = 0
         then (if length a < length b then - 1
               else if length b < length a then 1
               else r)
         else r)"

text \<open>
  Modelled from the spec: \<^verbatim>\<open>Slice::Comparator\<close> (missing) is the strict "comes before"
  test of the same byte-lexicographic order.
\<close>

definition Slice_Comparator :: "Slice \<Rightarrow> Slice \<Rightarrow> bool" where
  "Slice_Comparator a b \<longleftrightarrow> Slice_compare a b < 0"

subsection \<open>Status values and segments\<close>

text \<open>
  Modelled from the spec: \<^verbatim>\<open>Status\<close> of \<^verbatim>\<open>util/status.h\<close> is missing.  The code only
  asks a status whether it is OK and whether it is NotSupported; every other code is a
  failure, kept apart by a number.
\<close>

datatype StatusCode = kOk | kNotSupported | kFailure nat

record Status =
  code :: StatusCode
  msg :: string

text \<open>Modelled from the spec: \<^verbatim>\<open>Status::ok\<close>.\<close>

definition ok :: "Status \<Rightarrow> bool" where
  "ok s \<longleftrightarrow> code s = kOk"

text \<open>Modelled from the spec: \<^verbatim>\<open>Status::IsNotSupported\<close>.\<close>

definition IsNotSupported :: "Status \<Rightarrow> bool" where
  "IsNotSupported s \<longleftrightarrow> code s = kNotSupported"

text \<open>Modelled from the spec: \<^verbatim>\<open>Status::OK()\<close>, the success value.\<close>

definition Status_OK :: Status where
  "Status_OK = \<lparr>code = kOk, msg = []\<rparr>"

text \<open>
  Modelled from the spec: \<^verbatim>\<open>RowSet\<close> of \<^verbatim>\<open>tablet/rowset.h\<close> is missing.  A segment is an
  externally owned object with an identity, a diagnostic string and a bounds query.  The
  bounds query returns a status and leaves the two out-parameters \<^verbatim>\<open>min_key\<close> and
  \<^verbatim>\<open>max_key\<close> with some contents, so its outcome is a triple.  A
  \<^verbatim>\<open>shared_ptr<RowSet>\<close> that the code dereferences is the object itself; a raw
  \<^verbatim>\<open>RowSet *\<close>, which may be left unset, is an optional object.  The outcome of the
  bounds query is a field of the object: a segment answers the same each time it is asked
  during one build.
\<close>

record RowSet =
  rs_addr :: nat
  rs_ToString :: string
  rs_GetBounds :: "Status \<times> Slice \<times> Slice"

text \<open>Modelled from the spec: \<^verbatim>\<open>RowSet::GetBounds\<close>, the status with the two out-parameters.\<close>

definition GetBounds :: "RowSet \<Rightarrow> Status \<times> Slice \<times> Slice" where
  "GetBounds rs = rs_GetBounds rs"

type_synonym RowSet_ptr = "RowSet option"

subsection \<open>Endpoints, entries and the interval traits\<close>

datatype EndpointType = START | STOP

text \<open>
  \<^verbatim>\<open>RSEndpoint\<close> is declared in the missing header \<^verbatim>\<open>tablet/rowset_tree.h\<close>; its three
  fields are the three constructor arguments used in \<^verbatim>\<open>Reset\<close>.
\<close>

record RSEndpoint =
  ep_rowset :: RowSet_ptr
  ep_endpoint :: EndpointType
  ep_slice :: Slice

definition RSEndpointBySliceCompare :: "RSEndpoint \<Rightarrow> RSEndpoint \<Rightarrow> bool" where
  "RSEndpointBySliceCompare a b \<longleftrightarrow> Slice_Comparator (ep_slice a) (ep_slice b)"

record RowSetWithBounds =
  rowset :: RowSet_ptr
  min_key :: "byte list"
  max_key :: "byte list"

text \<open>The traits struct \<^verbatim>\<open>RowSetIntervalTraits\<close>.\<close>

definition get_left :: "RowSetWithBounds \<Rightarrow> Slice" where
  "get_left rs = min_key rs"

definition get_right :: "RowSetWithBounds \<Rightarrow> Slice" where
  "get_right rs = max_key rs"

definition compare :: "Slice \<Rightarrow> Slice \<Rightarrow> int" where
  "compare a b = Slice_compare a b"

subsection \<open>The interval tree\<close>

text \<open>
  Modelled from the spec: the \<^verbatim>\<open>IntervalTree\<close> template of \<^verbatim>\<open>util/interval_tree.h\<close> and
  \<^verbatim>\<open>util/interval_tree-inl.h\<close> is missing.  The spec gives its contract only: it is built
  from a set of intervals; \<^verbatim>\<open>FindContainingPoint\<close> yields the stored intervals that
  contain the point, closed at both ends; \<^verbatim>\<open>FindIntersectingInterval\<close> yields the stored
  intervals that overlap the closed query interval; all comparisons go through the traits.
  The tree is therefore the collection of its intervals, and both queries append the
  matching intervals to the result vector they are given.  The order of the matches is
  not part of the contract.
\<close>

datatype IntervalTree = IntervalTree "RowSetWithBounds list"

text \<open>Modelled from the spec: the stored intervals that contain the point, both ends closed.\<close>

fun FindContainingPoint ::
  "IntervalTree \<Rightarrow> Slice \<Rightarrow> RowSetWithBounds list \<Rightarrow> RowSetWithBounds list" where
  "FindContainingPoint (IntervalTree intervals) query results =
     results @ filter (\<lambda>i. compare (get_left i) query \<le> 0 \<and> compare query (get_right i) \<le> 0)
                 intervals"

text \<open>Modelled from the spec: the stored intervals that overlap the closed query interval.\<close>

fun FindIntersectingInterval ::
  "IntervalTree \<Rightarrow> RowSetWithBounds \<Rightarrow> RowSetWithBounds list \<Rightarrow> RowSetWithBounds list" where
  "FindIntersectingInterval (IntervalTree intervals) query results =
     results @ filter (\<lambda>i. compare (get_left i) (get_right query) \<le> 0
                          \<and> 0 \<le> compare (get_right i) (get_left query))
                 intervals"

subsection \<open>The index and its build operation\<close>

text \<open>
  The members of \<^verbatim>\<open>RowSetTree\<close>.  A name may not end in an underscore here, so the
  member \<^verbatim>\<open>entries_\<close> is \<open>m_entries\<close>, and so on; the fields \<^verbatim>\<open>rowset_\<close>,
  \<^verbatim>\<open>endpoint_\<close> and \<^verbatim>\<open>slice_\<close> of an endpoint are \<open>ep_rowset\<close>, \<open>ep_endpoint\<close>
  and \<open>ep_slice\<close>.  The tree is held through a scoped pointer that is null until the
  first build.
\<close>

record RowSetTree =
  m_entries :: "RowSetWithBounds list"
  m_unbounded_rowsets :: "RowSet list"
  m_tree :: "IntervalTree option"
  m_key_endpoints :: "RSEndpoint list"
  m_all_rowsets :: "RowSet list"
  m_initted :: bool

text \<open>The constructor: nothing but \<^verbatim>\<open>initted_(false)\<close>, every container empty.\<close>

definition RowSetTree_new :: RowSetTree where
  "RowSetTree_new =
     \<lparr>m_entries = [], m_unbounded_rowsets = [], m_tree = None, m_key_endpoints = [],
      m_all_rowsets = [], m_initted = False\<rparr>"

text \<open>
  A failed \<^verbatim>\<open>CHECK\<close> or \<^verbatim>\<open>DCHECK\<close> ends the process; so does following the
  \<^verbatim>\<open>tree_\<close> pointer while it is still null.
\<close>

datatype fatal = CheckFailed | NullDereference

text \<open>The three local vectors that the loop of \<^verbatim>\<open>Reset\<close> fills.\<close>

record Reset_locals =
  entries :: "RowSetWithBounds list"
  unbounded :: "RowSet list"
  endpoints :: "RSEndpoint list"

text \<open>
  The loop over the provided segments.  A NotSupported status sends the segment to the
  unbounded list and goes on; any other status that is not OK leaves the function with
  that status (the local vectors are dropped); otherwise two endpoints and one entry are
  appended.  The warning written to the log on the failure path changes nothing of the
  index and is left out.
\<close>

fun Reset_loop :: "RowSet list \<Rightarrow> Reset_locals \<Rightarrow> Status + Reset_locals" where
  "Reset_loop [] L = Inr L"
| "Reset_loop (rs # rest) L =
     (case GetBounds rs of (s, min_k, max_k) \<Rightarrow>
        if IsNotSupported s then
          Reset_loop rest (L\<lparr>unbounded := unbounded L @ [rs]\<rparr>)
        else if \<not> ok s then
          Inl s
        else
          Reset_loop rest
            (L\<lparr>endpoints := endpoints L @
                   [\<lparr>ep_rowset = Some rs, ep_endpoint = START, ep_slice = min_k\<rparr>,
                    \<lparr>ep_rowset = Some rs, ep_endpoint = STOP, ep_slice = max_k\<rparr>],
               entries := entries L @
                   [\<lparr>rowset = Some rs, min_key = min_k, max_key = max_k\<rparr>]\<rparr>))"

text \<open>
  \<^verbatim>\<open>std::sort\<close> with a comparator belongs to the C++ library.  It promises a sorted
  rearrangement and no order among equal keys; the model is an insertion sort that
  keeps equal keys in their order of arrival.
\<close>

fun sort_insert :: "('a \<Rightarrow> 'a \<Rightarrow> bool) \<Rightarrow> 'a \<Rightarrow> 'a list \<Rightarrow> 'a list" where
  "sort_insert cmp x [] = [x]"
| "sort_insert cmp x (y # ys) =
     (if cmp y x then y # sort_insert cmp x ys else x # y # ys)"

fun std_sort :: "('a \<Rightarrow> 'a \<Rightarrow> bool) \<Rightarrow> 'a list \<Rightarrow> 'a list" where
  "std_sort cmp [] = []"
| "std_sort cmp (x # xs) = sort_insert cmp x (std_sort cmp xs)"

definition Reset :: "RowSetTree \<Rightarrow> RowSet list \<Rightarrow> fatal + (Status \<times> RowSetTree)" where
  "Reset t rowsets =
     (if m_initted t then Inl CheckFailed
      else
        case Reset_loop rowsets \<lparr>entries = [], unbounded = [], endpoints = []\<rparr> of
          Inl s \<Rightarrow> Inr (s, t)
        | Inr L \<Rightarrow>
            Inr (Status_OK,
                 t\<lparr>m_entries := entries L,
                   m_unbounded_rowsets := unbounded L,
                   m_tree := Some (IntervalTree (entries L)),
                   m_key_endpoints := std_sort RSEndpointBySliceCompare (endpoints L),
                   m_all_rowsets := rowsets,
                   m_initted := True\<rparr>))"

subsection \<open>The two queries\<close>

text \<open>
  Both queries are \<^verbatim>\<open>void\<close> and write into the caller's vector \<^verbatim>\<open>rowsets\<close>; the model
  takes that vector and returns it as the call leaves it.  \<open>push_back_all\<close> is the
  \<^verbatim>\<open>BOOST_FOREACH\<close> loop whose body is one \<^verbatim>\<open>push_back\<close>.  The \<^verbatim>\<open>DCHECK\<close> at
  the head of each query is taken as armed, as in a debug build.  The calls of
  \<^verbatim>\<open>reserve\<close> change capacities only and have no counterpart here.  The field
  \<^verbatim>\<open>rowset\<close> of the local \<^verbatim>\<open>query\<close> is never assigned in the source and never read by
  the tree; it is the unset pointer.
\<close>

fun push_back_all :: "('a \<Rightarrow> 'b) \<Rightarrow> 'a list \<Rightarrow> 'b list \<Rightarrow> 'b list" where
  "push_back_all f [] v = v"
| "push_back_all f (x # xs) v = push_back_all f xs (v @ [f x])"

definition FindRowSetsIntersectingInterval ::
  "RowSetTree \<Rightarrow> Slice \<Rightarrow> Slice \<Rightarrow> RowSet_ptr list \<Rightarrow> fatal + RowSet_ptr list" where
  "FindRowSetsIntersectingInterval t lower_bound upper_bound rowsets =
     (if \<not> m_initted t then Inl CheckFailed
      else
        let rowsets1 = push_back_all Some (m_unbounded_rowsets t) rowsets;
            query = \<lparr>rowset = None, min_key = lower_bound, max_key = upper_bound\<rparr>
        in case m_tree t of
             None \<Rightarrow> Inl NullDereference
           | Some tr \<Rightarrow>
               let from_tree = FindIntersectingInterval tr query []
               in Inr (push_back_all rowset from_tree rowsets1))"

definition FindRowSetsWithKeyInRange ::
  "RowSetTree \<Rightarrow> Slice \<Rightarrow> RowSet_ptr list \<Rightarrow> fatal + RowSet_ptr list" where
  "FindRowSetsWithKeyInRange t encoded_key rowsets =
     (if \<not> m_initted t then Inl CheckFailed
      else
        let rowsets1 = push_back_all Some (m_unbounded_rowsets t) rowsets
        in case m_tree t of
             None \<Rightarrow> Inl NullDereference
           | Some tr \<Rightarrow>
               let from_tree = FindContainingPoint tr encoded_key []
               in Inr (push_back_all rowset from_tree rowsets1))"

subsection \<open>Vocabulary for the properties\<close>

text \<open>
  The three outcomes of a segment's bounds query as \<^verbatim>\<open>Reset\<close> tells them apart: the
  segment is unbounded (NotSupported), its query failed (neither NotSupported nor OK), or
  it is bounded (OK).
\<close>

definition is_unbounded :: "RowSet \<Rightarrow> bool" where
  "is_unbounded rs \<longleftrightarrow> IsNotSupported (fst (GetBounds rs))"

definition bounds_failed :: "RowSet \<Rightarrow> bool" where
  "bounds_failed rs \<longleftrightarrow>
     \<not> IsNotSupported (fst (GetBounds rs)) \<and> \<not> ok (fst (GetBounds rs))"

definition is_bounded :: "RowSet \<Rightarrow> bool" where
  "is_bounded rs \<longleftrightarrow> \<not> is_unbounded rs \<and> \<not> bounds_failed rs"

text \<open>The bounded entry that \<^verbatim>\<open>Reset\<close> makes for a segment, and an entry's two endpoints.\<close>

definition entry_of :: "RowSet \<Rightarrow> RowSetWithBounds" where
  "entry_of rs =
     \<lparr>rowset = Some rs, min_key = fst (snd (GetBounds rs)), max_key = snd (snd (GetBounds rs))\<rparr>"

definition entry_endpoints :: "RowSetWithBounds \<Rightarrow> RSEndpoint list" where
  "entry_endpoints e =
     [\<lparr>ep_rowset = rowset e, ep_endpoint = START, ep_slice = min_key e\<rparr>,
      \<lparr>ep_rowset = rowset e, ep_endpoint = STOP, ep_slice = max_key e\<rparr>]"

text \<open>
  Closed interval membership and closed interval overlap, written with the comparison of
  the interval traits.
\<close>

definition key_in_bounds :: "Slice \<Rightarrow> RowSetWithBounds \<Rightarrow> bool" where
  "key_in_bounds K e \<longleftrightarrow> compare (min_key e) K \<le> 0 \<and> compare K (max_key e) \<le> 0"

definition bounds_overlap :: "Slice \<Rightarrow> Slice \<Rightarrow> RowSetWithBounds \<Rightarrow> bool" where
  "bounds_overlap lo hi e \<longleftrightarrow> compare (min_key e) hi \<le> 0 \<and> 0 \<le> compare (max_key e) lo"

text \<open>
  The endpoint sequence is ascending when no later endpoint's key compares below an
  earlier one's, under the comparison of the interval traits.
\<close>

definition endpoints_ascending :: "RSEndpoint list \<Rightarrow> bool" where
  "endpoints_ascending eps \<longleftrightarrow> sorted_wrt (\<lambda>a b. compare (ep_slice a) (ep_slice b) \<le> 0) eps"

text \<open>
  The state that the commit at the end of a successful \<^verbatim>\<open>Reset\<close> installs, written
  as a function of the input segments.
\<close>

definition built :: "RowSetTree \<Rightarrow> RowSet list \<Rightarrow> RowSetTree" where
  "built t rowsets =
     t\<lparr>m_entries := map entry_of (filter is_bounded rowsets),
       m_unbounded_rowsets := filter is_unbounded rowsets,
       m_tree := Some (IntervalTree (map entry_of (filter is_bounded rowsets))),
       m_key_endpoints :=
         std_sort RSEndpointBySliceCompare
           (concat (map (entry_endpoints \<circ> entry_of) (filter is_bounded rowsets))),
       m_all_rowsets := rowsets,
       m_initted := True\<rparr>"

subsection \<open>Sample segments\<close>

text \<open>
  Segments \<open>A\<close> with bounds \<^verbatim>\<open>[a,c]\<close>, \<open>B\<close> with bounds \<^verbatim>\<open>[b,d]\<close>, an in-memory
  segment \<open>M\<close> without bounds, and a segment \<open>X\<close> whose bounds query fails.  The keys are
  the bytes of the letters.
\<close>

definition seg_A :: RowSet where
  "seg_A = \<lparr>rs_addr = 1, rs_ToString = ''A'', rs_GetBounds = (Status_OK, [97], [99])\<rparr>"

definition seg_B :: RowSet where
  "seg_B = \<lparr>rs_addr = 2, rs_ToString = ''B'', rs_GetBounds = (Status_OK, [98], [100])\<rparr>"

definition seg_M :: RowSet where
  "seg_M = \<lparr>rs_addr = 3, rs_ToString = ''M'',
            rs_GetBounds = (\<lparr>code = kNotSupported, msg = ''no bounds yet''\<rparr>, [], [])\<rparr>"

definition seg_X :: RowSet where
  "seg_X = \<lparr>rs_addr = 4, rs_ToString = ''X'',
            rs_GetBounds = (\<lparr>code = kFailure 5, msg = ''read error''\<rparr>, [], [])\<rparr>"

definition entry_A :: RowSetWithBounds where
  "entry_A = \<lparr>rowset = Some seg_A, min_key = [97], max_key = [99]\<rparr>"

definition entry_B :: RowSetWithBounds where
  "entry_B = \<lparr>rowset = Some seg_B, min_key = [98], max_key = [100]\<rparr>"

text \<open>The index that \<^verbatim>\<open>Reset\<close> builds from \<open>A\<close>, \<open>B\<close> and \<open>M\<close>.\<close>

definition index_ABM :: RowSetTree where
  "index_ABM =
     \<lparr>m_entries = [entry_A, entry_B],
      m_unbounded_rowsets = [seg_M],
      m_tree = Some (IntervalTree [entry_A, entry_B]),
      m_key_endpoints =
        [\<lparr>ep_rowset = Some seg_A, ep_endpoint = START, ep_slice = [97]\<rparr>,
         \<lparr>ep_rowset = Some seg_B, ep_endpoint = START, ep_slice = [98]\<rparr>,
         \<lparr>ep_rowset = Some seg_A, ep_endpoint = STOP, ep_slice = [99]\<rparr>,
         \<lparr>ep_rowset = Some seg_B, ep_endpoint = STOP, ep_slice = [100]\<rparr>],
      m_all_rowsets = [seg_A, seg_B, seg_M],
      m_initted = True\<rparr>"

section \<open>Properties\<close>

subsection \<open>Facts about the comparison\<close>

lemma Slice_compare_Nil_Nil: "Slice_compare [] [] = 0"
  by (simp add: Slice_compare_def)

lemma Slice_compare_Nil_Cons: "Slice_compare [] (y # ys) = - 1"
  by (simp add: Slice_compare_def)

lemma Slice_compare_Cons_Nil: "Slice_compare (x # xs) [] = 1"
  by (simp add: Slice_compare_def)

lemma Slice_compare_Cons_Cons:
  "Slice_compare (x # xs) (y # ys) =
     (if x < y then - 1 else if y < x then 1 else Slice_compare xs ys)"
  by (simp add: Slice_compare_def Let_def)

lemma Slice_compare_cases:
  "(a < b \<longrightarrow> Slice_compare a b = - 1) \<and> (a = b \<longrightarrow> Slice_compare a b = 0)
     \<and> (b < a \<longrightarrow> Slice_compare a b = 1)"
proof (induction a arbitrary: b)
  case Nil
  show ?case
    by (cases b) (simp_all add: Slice_compare_Nil_Nil Slice_compare_Nil_Cons)
next
  case (Cons x xs)
  show ?case
  proof (cases b)
    case Nil
    then show ?thesis by (simp add: Slice_compare_Cons_Nil)
  next
    case (Cons y ys)
    with Cons.IH [of ys] show ?thesis
      by (auto simp: Slice_compare_Cons_Cons)
  qed
qed

lemma compare_le_0_iff: "compare a b \<le> 0 \<longleftrightarrow> a \<le> b"
  using Slice_compare_cases [of a b] 
  by (cases a b rule: linorder_cases) (auto simp: compare_def)

lemma compare_ge_0_iff: "0 \<le> compare a b \<longleftrightarrow> b \<le> a"
  using Slice_compare_cases [of a b] 
  by (cases a b rule: linorder_cases) (auto simp: compare_def)

lemma Slice_Comparator_iff: "Slice_Comparator a b \<longleftrightarrow> a < b"
  using Slice_compare_cases [of a b] 
  by (cases a b rule: linorder_cases) (auto simp: Slice_Comparator_def)

subsection \<open>Facts about the sort\<close>

lemma mset_sort_insert: "mset (sort_insert cmp x xs) = add_mset x (mset xs)"
  by (induction xs) simp_all

lemma mset_std_sort: "mset (std_sort cmp xs) = mset xs"
  by (induction xs) (simp_all add: mset_sort_insert)

lemma set_std_sort: "set (std_sort cmp xs) = set xs"
  using mset_std_sort [of cmp xs] by (metis set_mset_mset)

lemma length_std_sort: "length (std_sort cmp xs) = length xs"
  using mset_std_sort [of cmp xs] by (metis size_mset)

lemma set_sort_insert: "set (sort_insert cmp x xs) = insert x (set xs)"
  using mset_sort_insert [of cmp x xs] by (metis set_mset_mset set_mset_add_mset_insert)

lemma ascending_sort_insert:
  "endpoints_ascending eps \<Longrightarrow> endpoints_ascending (sort_insert RSEndpointBySliceCompare x eps)"
proof (induction eps)
  case Nil
  show ?case by (simp add: endpoints_ascending_def)
next
  case (Cons y ys)
  then have tail: "endpoints_ascending (sort_insert RSEndpointBySliceCompare x ys)"
    by (simp add: endpoints_ascending_def)
  show ?case
  proof (cases "RSEndpointBySliceCompare y x")
    case True
    then have "ep_slice y \<le> ep_slice x"
      by (simp add: RSEndpointBySliceCompare_def Slice_Comparator_iff)
    with True tail Cons.prems show ?thesis
      by (auto simp: endpoints_ascending_def set_sort_insert compare_le_0_iff)
  next
    case False
    then have "ep_slice x \<le> ep_slice y"
      by (simp add: RSEndpointBySliceCompare_def Slice_Comparator_iff)
    with False Cons.prems show ?thesis
      by (auto simp: endpoints_ascending_def compare_le_0_iff)
  qed
qed

lemma ascending_std_sort: "endpoints_ascending (std_sort RSEndpointBySliceCompare eps)"
  by (induction eps) (simp_all add: ascending_sort_insert, simp add: endpoints_ascending_def)

subsection \<open>Facts about the loop and the build\<close>

lemma push_back_all_eq: "push_back_all f xs v = v @ map f xs"
  by (induction xs arbitrary: v) simp_all

lemma is_bounded_iff: "is_bounded r \<longleftrightarrow> ok (fst (GetBounds r))"
  by (auto simp: is_bounded_def is_unbounded_def bounds_failed_def IsNotSupported_def ok_def)

lemma Reset_loop_unbounded:
  "is_unbounded r \<Longrightarrow> Reset_loop (r # rest) L = Reset_loop rest (L\<lparr>unbounded := unbounded L @ [r]\<rparr>)"
  by (cases "GetBounds r") (simp add: is_unbounded_def)

lemma Reset_loop_failed:
  "bounds_failed r \<Longrightarrow> Reset_loop (r # rest) L = Inl (fst (GetBounds r))"
  by (cases "GetBounds r") (simp add: bounds_failed_def)

lemma Reset_loop_bounded:
  "is_bounded r \<Longrightarrow>
   Reset_loop (r # rest) L =
     Reset_loop rest (L\<lparr>endpoints := endpoints L @ entry_endpoints (entry_of r),
                         entries := entries L @ [entry_of r]\<rparr>)"
  by (cases "GetBounds r")
    (auto simp: is_bounded_def is_unbounded_def bounds_failed_def entry_endpoints_def entry_of_def)

lemma Reset_loop_all_good:
  "\<forall>r\<in>set rs. \<not> bounds_failed r \<Longrightarrow>
   Reset_loop rs L =
     Inr \<lparr>entries = entries L @ map entry_of (filter is_bounded rs),
          unbounded = unbounded L @ filter is_unbounded rs,
          endpoints = endpoints L @ concat (map (entry_endpoints \<circ> entry_of) (filter is_bounded rs))\<rparr>"
proof (induction rs arbitrary: L)
  case Nil
  show ?case by simp
next
  case (Cons r rs)
  then have rest: "\<forall>r\<in>set rs. \<not> bounds_failed r" and r: "\<not> bounds_failed r"
    by simp_all
  show ?case
  proof (cases "is_unbounded r")
    case True
    then have "\<not> is_bounded r" by (simp add: is_bounded_def)
    with True show ?thesis
      by (simp only: Reset_loop_unbounded Cons.IH [OF rest]) simp
  next
    case False
    with r have b: "is_bounded r" by (simp add: is_bounded_def)
    from b False show ?thesis
      by (simp only: Reset_loop_bounded Cons.IH [OF rest]) simp
  qed
qed

lemma Reset_loop_first_failure:
  "\<forall>p\<in>set pre. \<not> bounds_failed p \<Longrightarrow> bounds_failed f \<Longrightarrow>
   Reset_loop (pre @ f # post) L = Inl (fst (GetBounds f))"
proof (induction pre arbitrary: L)
  case Nil
  then show ?case by (simp only: append_Nil Reset_loop_failed)
next
  case (Cons r pre)
  then have r: "\<not> bounds_failed r" and pre: "\<forall>p\<in>set pre. \<not> bounds_failed p"
    by simp_all
  show ?case
  proof (cases "is_unbounded r")
    case True
    then show ?thesis
      by (simp only: append_Cons Reset_loop_unbounded Cons.IH [OF pre Cons.prems(2)])
  next
    case False
    with r have "is_bounded r" by (simp add: is_bounded_def)
    then show ?thesis
      by (simp only: append_Cons Reset_loop_bounded Cons.IH [OF pre Cons.prems(2)])
  qed
qed

lemma first_failure_split:
  "\<exists>r\<in>set rs. bounds_failed r \<Longrightarrow>
   \<exists>pre f post. rs = pre @ f # post \<and> (\<forall>p\<in>set pre. \<not> bounds_failed p) \<and> bounds_failed f"
  by (metis split_list_first_prop)

lemma Reset_loop_Inl_not_ok: "Reset_loop rs L = Inl s \<Longrightarrow> \<not> ok s \<and> \<not> IsNotSupported s"
proof (cases "\<exists>r\<in>set rs. bounds_failed r")
  case True
  assume a: "Reset_loop rs L = Inl s"
  from first_failure_split [OF True] obtain pre f post where
    "rs = pre @ f # post" "\<forall>p\<in>set pre. \<not> bounds_failed p" "bounds_failed f" by blast
  with a Reset_loop_first_failure [of pre f post L] show ?thesis
    by (simp add: bounds_failed_def)
next
  case False
  assume a: "Reset_loop rs L = Inl s"
  from False have "\<forall>r\<in>set rs. \<not> bounds_failed r" by blast
  from Reset_loop_all_good [OF this, of L] a show ?thesis by simp
qed

lemma Reset_all_good:
  "\<not> m_initted t \<Longrightarrow> \<forall>r\<in>set rowsets. \<not> bounds_failed r \<Longrightarrow>
   Reset t rowsets = Inr (Status_OK, built t rowsets)"
  by (simp add: Reset_def Reset_loop_all_good built_def)

lemma ok_Status_OK: "ok Status_OK"
  by (simp add: ok_def Status_OK_def)

lemma Reset_success_D:
  assumes "Reset t rowsets = Inr (Status_OK, t')"
  shows "\<not> m_initted t \<and> (\<forall>r\<in>set rowsets. \<not> bounds_failed r) \<and> t' = built t rowsets"
proof -
  from assms have ni: "\<not> m_initted t"
    by (auto simp: Reset_def split: if_splits)
  have good: "\<forall>r\<in>set rowsets. \<not> bounds_failed r"
  proof (rule ccontr)
    assume "\<not> (\<forall>r\<in>set rowsets. \<not> bounds_failed r)"
    then have "\<exists>r\<in>set rowsets. bounds_failed r" by blast
    from first_failure_split [OF this] obtain pre f post where
      sp: "rowsets = pre @ f # post" "\<forall>p\<in>set pre. \<not> bounds_failed p" "bounds_failed f" by blast
    have "Reset_loop rowsets \<lparr>entries = [], unbounded = [], endpoints = []\<rparr> = Inl (fst (GetBounds f))"
      unfolding sp(1) by (rule Reset_loop_first_failure [OF sp(2,3)])
    with assms ni have "fst (GetBounds f) = Status_OK"
      by (simp add: Reset_def)
    with sp(3) show False by (simp add: bounds_failed_def ok_Status_OK)
  qed
  from Reset_all_good [OF ni good] assms show ?thesis using ni good by simp
qed

lemma Reset_initted: "m_initted t \<Longrightarrow> Reset t rowsets = Inl CheckFailed"
  by (simp add: Reset_def)

lemma built_initted: "m_initted (built t rowsets)"
  by (simp add: built_def)

lemma length_concat_endpoints:
  "length (concat (map entry_endpoints es)) = 2 * length es"
  by (induction es) (simp_all add: entry_endpoints_def)

subsection \<open>Facts about the queries and the sample index\<close>

lemma key_in_bounds_fold:
  "(\<lambda>i. compare (min_key i) K \<le> 0 \<and> compare K (max_key i) \<le> 0) = key_in_bounds K"
  by (simp add: key_in_bounds_def fun_eq_iff)

lemma bounds_overlap_fold:
  "(\<lambda>i. compare (min_key i) hi \<le> 0 \<and> 0 \<le> compare (max_key i) lo) = bounds_overlap lo hi"
  by (simp add: bounds_overlap_def fun_eq_iff)

lemma Find_key_built:
  "FindRowSetsWithKeyInRange (built t rs) K out =
     Inr (out @ map Some (filter is_unbounded rs)
              @ map rowset (filter (key_in_bounds K) (map entry_of (filter is_bounded rs))))"
  by (simp add: FindRowSetsWithKeyInRange_def built_def push_back_all_eq key_in_bounds_fold
      get_left_def get_right_def)

lemma Find_interval_built:
  "FindRowSetsIntersectingInterval (built t rs) lo hi out =
     Inr (out @ map Some (filter is_unbounded rs)
              @ map rowset (filter (bounds_overlap lo hi) (map entry_of (filter is_bounded rs))))"
  by (simp add: FindRowSetsIntersectingInterval_def built_def push_back_all_eq
      bounds_overlap_fold get_left_def get_right_def)

lemma rowset_entry_of: "rowset (entry_of r) = Some r"
  by (simp add: entry_of_def)

lemma bounded_segment_found_iff:
  assumes "is_bounded r"
  shows "Some r \<in> set (out0 @ map Some (filter is_unbounded rs)
                     @ map rowset (filter P (map entry_of (filter is_bounded rs))))
         \<longleftrightarrow> Some r \<in> set out0 \<or> (r \<in> set rs \<and> P (entry_of r))"
  using assms by (auto simp: rowset_entry_of is_bounded_def image_iff)

lemma sample_Reset:
  "Reset RowSetTree_new [seg_A, seg_B, seg_M] = Inr (Status_OK, index_ABM)"
  by (simp add: Reset_def RowSetTree_new_def seg_A_def seg_B_def seg_M_def GetBounds_def
      IsNotSupported_def ok_def Status_OK_def index_ABM_def entry_A_def entry_B_def
      RSEndpointBySliceCompare_def Slice_Comparator_def Slice_compare_def)

lemma sample_point_query:
  "FindRowSetsWithKeyInRange index_ABM K out =
     Inr (out @ [Some seg_M] @ map rowset (filter (key_in_bounds K) [entry_A, entry_B]))"
  by (simp add: FindRowSetsWithKeyInRange_def index_ABM_def push_back_all_eq key_in_bounds_fold
      get_left_def get_right_def del: filter.simps)

lemma sample_range_query:
  "FindRowSetsIntersectingInterval index_ABM lo hi out =
     Inr (out @ [Some seg_M] @ map rowset (filter (bounds_overlap lo hi) [entry_A, entry_B]))"
  by (simp add: FindRowSetsIntersectingInterval_def index_ABM_def push_back_all_eq
      bounds_overlap_fold get_left_def get_right_def del: filter.simps)

lemma sample_rowset: "rowset entry_A = Some seg_A" "rowset entry_B = Some seg_B"
  "min_key entry_A = [97]" "max_key entry_A = [99]" "min_key entry_B = [98]"
  "max_key entry_B = [100]"
  by (simp_all add: entry_A_def entry_B_def)

lemma sample_status:
  "is_bounded seg_A" "is_bounded seg_B" "is_unbounded seg_M" "bounds_failed seg_X"
  "\<not> bounds_failed seg_A" "\<not> bounds_failed seg_B" "\<not> bounds_failed seg_M"
  "\<not> is_unbounded seg_A" "\<not> is_unbounded seg_B"
  by (simp_all add: is_bounded_def is_unbounded_def bounds_failed_def seg_A_def seg_B_def
      seg_M_def seg_X_def GetBounds_def IsNotSupported_def ok_def Status_OK_def)

lemma sample_not_initted: "\<not> m_initted RowSetTree_new"
  by (simp add: RowSetTree_new_def)

subsection \<open>The properties of the index\<close>

text \<open>
  Claim C1 (point containment).  Let \<^verbatim>\<open>Reset\<close> have succeeded and let \<open>e\<close> be one of
  the bounded entries it installed, with captured bounds \<open>min_key e\<close> and \<open>max_key e\<close>.
  For every probe key \<open>K\<close> the point query returns, and the segment of \<open>e\<close> is among its
  results exactly when \<open>min_key e \<le> K \<le> max_key e\<close>.  Here \<open>\<le>\<close> is the lexicographic
  order of byte lists from the library, with bytes ordered as unsigned numbers and a
  proper prefix before its extensions; it is defined apart from the comparison that the
  index itself runs.  The interval tree is the one modelled from the spec.
\<close>

theorem point_containment:
  assumes "Reset t rowsets = Inr (Status_OK, t')" and "e \<in> set (m_entries t')"
  shows "\<exists>found. FindRowSetsWithKeyInRange t' K [] = Inr found \<and>
           (rowset e \<in> set found \<longleftrightarrow> min_key e \<le> K \<and> K \<le> max_key e)"
proof -
  from Reset_success_D [OF assms(1)] have t': "t' = built t rowsets" by simp
  with assms(2) obtain r where r: "r \<in> set rowsets" "is_bounded r" "e = entry_of r"
    by (auto simp: built_def)
  have "FindRowSetsWithKeyInRange t' K [] =
          Inr ([] @ map Some (filter is_unbounded rowsets)
                 @ map rowset (filter (key_in_bounds K) (map entry_of (filter is_bounded rowsets))))"
    unfolding t' by (rule Find_key_built)
  moreover have "rowset e \<in> set ([] @ map Some (filter is_unbounded rowsets)
                 @ map rowset (filter (key_in_bounds K) (map entry_of (filter is_bounded rowsets))))
          \<longleftrightarrow> key_in_bounds K e"
    using bounded_segment_found_iff [OF r(2), of "[]" rowsets "key_in_bounds K"] r
    by (simp add: rowset_entry_of)
  moreover have "key_in_bounds K e \<longleftrightarrow> min_key e \<le> K \<and> K \<le> max_key e"
    by (simp add: key_in_bounds_def compare_le_0_iff)
  ultimately show ?thesis
    by simp
qed

theorem point_containment_witness:
  "Reset RowSetTree_new [seg_A, seg_B, seg_M] = Inr (Status_OK, index_ABM)
   \<and> entry_A \<in> set (m_entries index_ABM)
   \<and> FindRowSetsWithKeyInRange index_ABM [98] [] = Inr [Some seg_M, Some seg_A, Some seg_B]
   \<and> rowset entry_A \<in> set [Some seg_M, Some seg_A, Some seg_B]
   \<and> min_key entry_A \<le> [98] \<and> [98] \<le> max_key entry_A
   \<and> FindRowSetsWithKeyInRange index_ABM [122] [] = Inr [Some seg_M]
   \<and> rowset entry_A \<notin> set [Some seg_M]
   \<and> min_key entry_A \<le> [122] \<and> \<not> [122] \<le> max_key entry_A
   \<and> FindRowSetsWithKeyInRange index_ABM [96, 255] [] = Inr [Some seg_M]
   \<and> \<not> min_key entry_A \<le> [96, 255] \<and> [96, 255] \<le> max_key entry_A"
proof -
  have h1: "Reset RowSetTree_new [seg_A, seg_B, seg_M] = Inr (Status_OK, index_ABM)"
    by (rule sample_Reset)
  have h2: "entry_A \<in> set (m_entries index_ABM)"
    by (simp add: index_ABM_def)
  have q1: "FindRowSetsWithKeyInRange index_ABM [98] [] = Inr [Some seg_M, Some seg_A, Some seg_B]"
    by (simp add: sample_point_query key_in_bounds_def sample_rowset compare_def Slice_compare_def)
  have q2: "FindRowSetsWithKeyInRange index_ABM [122] [] = Inr [Some seg_M]"
    by (simp add: sample_point_query key_in_bounds_def sample_rowset compare_def Slice_compare_def)
  have q3: "FindRowSetsWithKeyInRange index_ABM [96, 255] [] = Inr [Some seg_M]"
    by (simp add: sample_point_query key_in_bounds_def sample_rowset compare_def Slice_compare_def)
  from point_containment [OF h1 h2, of "[98]"] point_containment [OF h1 h2, of "[122]"]
    point_containment [OF h1 h2, of "[96, 255]"] h1 h2 q1 q2 q3
  show ?thesis
    by (simp add: sample_rowset)
qed

text \<open>
  Claim C2 (interval overlap).  Let \<^verbatim>\<open>Reset\<close> have succeeded, let \<open>e\<close> be one of the
  bounded entries and let \<open>lo \<le> hi\<close>.  The range query returns, and the segment of \<open>e\<close>
  is among its results exactly when \<open>min_key e \<le> hi\<close> and \<open>lo \<le> max_key e\<close>, both ends
  inclusive.  Here too \<open>\<le>\<close> is the library's lexicographic order of byte lists, defined
  apart from the comparison that the index itself runs.  The interval tree is the one
  modelled from the spec.
\<close>

theorem interval_overlap:
  assumes "Reset t rowsets = Inr (Status_OK, t')" and "e \<in> set (m_entries t')"
    and "lo \<le> hi"
  shows "\<exists>found. FindRowSetsIntersectingInterval t' lo hi [] = Inr found \<and>
           (rowset e \<in> set found \<longleftrightarrow> min_key e \<le> hi \<and> lo \<le> max_key e)"
proof -
  from Reset_success_D [OF assms(1)] have t': "t' = built t rowsets" by simp
  with assms(2) obtain r where r: "r \<in> set rowsets" "is_bounded r" "e = entry_of r"
    by (auto simp: built_def)
  have "FindRowSetsIntersectingInterval t' lo hi [] =
          Inr ([] @ map Some (filter is_unbounded rowsets)
                 @ map rowset (filter (bounds_overlap lo hi) (map entry_of (filter is_bounded rowsets))))"
    unfolding t' by (rule Find_interval_built)
  moreover have "rowset e \<in> set ([] @ map Some (filter is_unbounded rowsets)
                 @ map rowset (filter (bounds_overlap lo hi) (map entry_of (filter is_bounded rowsets))))
          \<longleftrightarrow> bounds_overlap lo hi e"
    using bounded_segment_found_iff [OF r(2), of "[]" rowsets "bounds_overlap lo hi"] r
    by (simp add: rowset_entry_of)
  moreover have "bounds_overlap lo hi e \<longleftrightarrow> min_key e \<le> hi \<and> lo \<le> max_key e"
    by (simp add: bounds_overlap_def compare_le_0_iff compare_ge_0_iff)
  ultimately show ?thesis
    by simp
qed

theorem interval_overlap_witness:
  "Reset RowSetTree_new [seg_A, seg_B, seg_M] = Inr (Status_OK, index_ABM)
   \<and> entry_B \<in> set (m_entries index_ABM)
   \<and> [99] \<le> [100 :: byte]
   \<and> FindRowSetsIntersectingInterval index_ABM [99] [100] [] =
       Inr [Some seg_M, Some seg_A, Some seg_B]
   \<and> rowset entry_B \<in> set [Some seg_M, Some seg_A, Some seg_B]
   \<and> min_key entry_B \<le> [100] \<and> [99] \<le> max_key entry_B
   \<and> [97] \<le> [97, 0 :: byte]
   \<and> FindRowSetsIntersectingInterval index_ABM [97] [97, 0] [] = Inr [Some seg_M, Some seg_A]
   \<and> rowset entry_B \<notin> set [Some seg_M, Some seg_A]
   \<and> \<not> min_key entry_B \<le> [97, 0] \<and> [97] \<le> max_key entry_B
   \<and> [100, 0] \<le> [122 :: byte]
   \<and> FindRowSetsIntersectingInterval index_ABM [100, 0] [122] [] = Inr [Some seg_M]
   \<and> rowset entry_B \<notin> set [Some seg_M]
   \<and> min_key entry_B \<le> [122] \<and> \<not> [100, 0] \<le> max_key entry_B"
proof -
  have h1: "Reset RowSetTree_new [seg_A, seg_B, seg_M] = Inr (Status_OK, index_ABM)"
    by (rule sample_Reset)
  have h2: "entry_B \<in> set (m_entries index_ABM)"
    by (simp add: index_ABM_def)
  have r1: "[99] \<le> [100 :: byte]" by simp
  have r2: "[97] \<le> [97, 0 :: byte]" by simp
  have r3: "[100, 0] \<le> [122 :: byte]" by simp
  have q1: "FindRowSetsIntersectingInterval index_ABM [99] [100] [] =
             Inr [Some seg_M, Some seg_A, Some seg_B]"
    by (simp add: sample_range_query bounds_overlap_def sample_rowset compare_def Slice_compare_def)
  have q2: "FindRowSetsIntersectingInterval index_ABM [97] [97, 0] [] = Inr [Some seg_M, Some seg_A]"
    by (simp add: sample_range_query bounds_overlap_def sample_rowset compare_def Slice_compare_def)
  have q3: "FindRowSetsIntersectingInterval index_ABM [100, 0] [122] [] = Inr [Some seg_M]"
    by (simp add: sample_range_query bounds_overlap_def sample_rowset compare_def Slice_compare_def)
  from interval_overlap [OF h1 h2 r1] interval_overlap [OF h1 h2 r2] interval_overlap [OF h1 h2 r3]
    h1 h2 r1 r2 r3 q1 q2 q3
  show ?thesis
    by (simp add: sample_rowset)
qed

text \<open>
  Claim C3 (unbounded inclusion).  After a successful \<^verbatim>\<open>Reset\<close>, every segment on the
  unbounded list is in the result of the point query for every key, and in the result of
  the range query for every range, whatever the caller's vector held before.
\<close>

theorem unbounded_inclusion:
  assumes "Reset t rowsets = Inr (Status_OK, t')" and "u \<in> set (m_unbounded_rowsets t')"
  shows "(\<exists>found. FindRowSetsWithKeyInRange t' K out = Inr found \<and> Some u \<in> set found) \<and>
         (\<exists>found. FindRowSetsIntersectingInterval t' lo hi out = Inr found \<and> Some u \<in> set found)"
proof -
  from Reset_success_D [OF assms(1)] have t': "t' = built t rowsets" by simp
  with assms(2) have u: "u \<in> set (filter is_unbounded rowsets)"
    by (simp add: built_def)
  show ?thesis
    unfolding t' Find_key_built Find_interval_built using u by simp
qed

theorem unbounded_inclusion_witness:
  "Reset RowSetTree_new [seg_A, seg_B, seg_M] = Inr (Status_OK, index_ABM)
   \<and> seg_M \<in> set (m_unbounded_rowsets index_ABM)
   \<and> (\<exists>found. FindRowSetsWithKeyInRange index_ABM [122] [] = Inr found \<and> Some seg_M \<in> set found)
   \<and> (\<exists>found. FindRowSetsIntersectingInterval index_ABM [120] [122] [] = Inr found
         \<and> Some seg_M \<in> set found)"
proof -
  have h1: "Reset RowSetTree_new [seg_A, seg_B, seg_M] = Inr (Status_OK, index_ABM)"
    by (rule sample_Reset)
  have h2: "seg_M \<in> set (m_unbounded_rowsets index_ABM)"
    by (simp add: index_ABM_def)
  from unbounded_inclusion [OF h1 h2, of "[122]" "[]" "[120]" "[122]"] h1 h2 show ?thesis
    by simp
qed

text \<open>
  Claim C4 (fail fast).  If the index is not yet initialized and the bounds query of some
  input segment fails with a status that is neither OK nor NotSupported, then \<^verbatim>\<open>Reset\<close>
  returns the status of the first such segment in input order (the one failing segment,
  when there is only one), and the index it leaves behind is the index it was given:
  still uninitialized, with none of its members changed.
\<close>

theorem Reset_fail_fast:
  assumes "\<not> m_initted t" and "r \<in> set rowsets" and "bounds_failed r"
  shows "\<exists>pre f post. rowsets = pre @ f # post \<and> (\<forall>p\<in>set pre. \<not> bounds_failed p)
           \<and> bounds_failed f
           \<and> Reset t rowsets = Inr (fst (GetBounds f), t)
           \<and> \<not> ok (fst (GetBounds f)) \<and> \<not> IsNotSupported (fst (GetBounds f))
           \<and> \<not> m_initted t"
proof -
  from assms(2,3) have "\<exists>r\<in>set rowsets. bounds_failed r" by blast
  from first_failure_split [OF this] obtain pre f post where
    sp: "rowsets = pre @ f # post" "\<forall>p\<in>set pre. \<not> bounds_failed p" "bounds_failed f" by blast
  have "Reset_loop rowsets \<lparr>entries = [], unbounded = [], endpoints = []\<rparr> = Inl (fst (GetBounds f))"
    unfolding sp(1) by (rule Reset_loop_first_failure [OF sp(2,3)])
  with assms(1) have "Reset t rowsets = Inr (fst (GetBounds f), t)"
    by (simp add: Reset_def)
  with sp assms(1) show ?thesis
    unfolding bounds_failed_def by blast
qed

theorem Reset_fail_fast_witness:
  "\<not> m_initted RowSetTree_new \<and> seg_X \<in> set [seg_A, seg_X, seg_M] \<and> bounds_failed seg_X
   \<and> Reset RowSetTree_new [seg_A, seg_X, seg_M] =
       Inr (\<lparr>code = kFailure 5, msg = ''read error''\<rparr>, RowSetTree_new)"
proof -
  have h1: "\<not> m_initted RowSetTree_new" by (rule sample_not_initted)
  have h2: "seg_X \<in> set [seg_A, seg_X, seg_M]" by simp
  have h3: "bounds_failed seg_X" by (rule sample_status)
  from Reset_fail_fast [OF h1 h2 h3] obtain pre f post where
    sp: "[seg_A, seg_X, seg_M] = pre @ f # post" "bounds_failed f"
      "Reset RowSetTree_new [seg_A, seg_X, seg_M] = Inr (fst (GetBounds f), RowSetTree_new)"
    by blast
  from sp(1) have "f \<in> set [seg_A, seg_X, seg_M]"
    by (metis in_set_conv_decomp)
  with sp(2) have "f = seg_X"
    by (auto simp: sample_status)
  with sp(3) h1 h2 h3 show ?thesis
    by (simp add: seg_X_def GetBounds_def)
qed

text \<open>
  Claim C5 (partition).  After a successful \<^verbatim>\<open>Reset\<close> the bounded entries are, in
  order, the input segments whose bounds query was OK, the unbounded list is the input
  segments whose bounds query was NotSupported, the two together hold every input segment
  once per occurrence, no input segment is in both or in neither, and the two sizes add
  up to the size of the input.
\<close>

theorem partition_invariant:
  assumes "Reset t rowsets = Inr (Status_OK, t')"
  shows "map rowset (m_entries t') = map Some (filter (\<lambda>r. ok (fst (GetBounds r))) rowsets)
       \<and> m_unbounded_rowsets t' = filter (\<lambda>r. IsNotSupported (fst (GetBounds r))) rowsets
       \<and> mset (map rowset (m_entries t')) + mset (map Some (m_unbounded_rowsets t'))
           = mset (map Some rowsets)
       \<and> (\<forall>r\<in>set rowsets. (Some r \<in> rowset ` set (m_entries t'))
                             \<noteq> (r \<in> set (m_unbounded_rowsets t')))
       \<and> length (m_entries t') + length (m_unbounded_rowsets t') = length rowsets"
proof -
  from Reset_success_D [OF assms] have good: "\<forall>r\<in>set rowsets. \<not> bounds_failed r"
    and t': "t' = built t rowsets" by simp_all
  have unb: "is_unbounded = (\<lambda>r. IsNotSupported (fst (GetBounds r)))"
    by (simp add: is_unbounded_def fun_eq_iff)
  have bnd: "is_bounded = (\<lambda>r. ok (fst (GetBounds r)))"
    by (simp add: is_bounded_iff fun_eq_iff)
  from good have compl: "filter is_bounded rowsets = filter (\<lambda>r. \<not> is_unbounded r) rowsets"
    by (intro filter_cong) (auto simp: is_bounded_def)
  have e: "map rowset (m_entries t') = map Some (filter is_bounded rowsets)"
    by (simp add: t' built_def rowset_entry_of comp_def)
  have u: "m_unbounded_rowsets t' = filter is_unbounded rowsets"
    by (simp add: t' built_def)
  have m: "mset (map rowset (m_entries t')) + mset (map Some (m_unbounded_rowsets t'))
             = mset (map Some rowsets)"
    unfolding e u compl by (simp flip: image_mset_union)
  have x: "\<forall>r\<in>set rowsets. (Some r \<in> rowset ` set (m_entries t'))
                             \<noteq> (r \<in> set (m_unbounded_rowsets t'))"
  proof
    fix r assume r: "r \<in> set rowsets"
    have "Some r \<in> rowset ` set (m_entries t') \<longleftrightarrow> r \<in> set (filter is_bounded rowsets)"
      using e by (metis (no_types) image_set inj_Some inj_image_mem_iff)
    with r u compl show "(Some r \<in> rowset ` set (m_entries t')) \<noteq> (r \<in> set (m_unbounded_rowsets t'))"
      by simp
  qed
  have l: "length (m_entries t') + length (m_unbounded_rowsets t') = length rowsets"
    using m by (metis length_map mset_append size_mset length_append)
  from e u m x l show ?thesis
    unfolding unb bnd by blast
qed

theorem partition_invariant_witness:
  "Reset RowSetTree_new [seg_A, seg_B, seg_M] = Inr (Status_OK, index_ABM)
   \<and> map rowset (m_entries index_ABM) = [Some seg_A, Some seg_B]
   \<and> m_unbounded_rowsets index_ABM = [seg_M]
   \<and> length (m_entries index_ABM) + length (m_unbounded_rowsets index_ABM)
       = length [seg_A, seg_B, seg_M]"
proof -
  have h1: "Reset RowSetTree_new [seg_A, seg_B, seg_M] = Inr (Status_OK, index_ABM)"
    by (rule sample_Reset)
  from partition_invariant [OF h1] h1 show ?thesis
    by (simp add: index_ABM_def sample_rowset)
qed

text \<open>
  Claim C6 (endpoint sequence).  After a successful \<^verbatim>\<open>Reset\<close> the retained endpoint
  sequence holds, for each bounded entry, one START endpoint at its \<open>min_key\<close> and one
  STOP endpoint at its \<open>max_key\<close> and nothing else, so its length is twice the number
  of bounded entries; and it is ascending by key: no later endpoint's key compares below
  an earlier one's under the byte-lexicographic comparison of the interval traits.
\<close>

theorem endpoint_sequence:
  assumes "Reset t rowsets = Inr (Status_OK, t')"
  shows "mset (m_key_endpoints t') = mset (concat (map entry_endpoints (m_entries t')))
       \<and> length (m_key_endpoints t') = 2 * length (m_entries t')
       \<and> sorted_wrt (\<lambda>a b. compare (ep_slice a) (ep_slice b) \<le> 0) (m_key_endpoints t')"
proof -
  from Reset_success_D [OF assms] have t': "t' = built t rowsets" by simp
  have m: "mset (m_key_endpoints t') = mset (concat (map entry_endpoints (m_entries t')))"
    by (simp add: t' built_def mset_std_sort)
  have l: "length (m_key_endpoints t') = 2 * length (m_entries t')"
    using m length_concat_endpoints [of "m_entries t'"] by (metis size_mset)
  have s: "sorted_wrt (\<lambda>a b. compare (ep_slice a) (ep_slice b) \<le> 0) (m_key_endpoints t')"
    using ascending_std_sort [of "concat (map (entry_endpoints \<circ> entry_of) (filter is_bounded rowsets))"]
    by (simp add: t' built_def endpoints_ascending_def)
  from m l s show ?thesis by blast
qed

theorem endpoint_sequence_witness:
  "Reset RowSetTree_new [seg_A, seg_B, seg_M] = Inr (Status_OK, index_ABM)
   \<and> m_key_endpoints index_ABM =
        [\<lparr>ep_rowset = Some seg_A, ep_endpoint = START, ep_slice = [97]\<rparr>,
         \<lparr>ep_rowset = Some seg_B, ep_endpoint = START, ep_slice = [98]\<rparr>,
         \<lparr>ep_rowset = Some seg_A, ep_endpoint = STOP, ep_slice = [99]\<rparr>,
         \<lparr>ep_rowset = Some seg_B, ep_endpoint = STOP, ep_slice = [100]\<rparr>]
   \<and> length (m_key_endpoints index_ABM) = 2 * length (m_entries index_ABM)
   \<and> sorted_wrt (\<lambda>a b. compare (ep_slice a) (ep_slice b) \<le> 0) (m_key_endpoints index_ABM)"
proof -
  have h1: "Reset RowSetTree_new [seg_A, seg_B, seg_M] = Inr (Status_OK, index_ABM)"
    by (rule sample_Reset)
  have "m_key_endpoints index_ABM =
        [\<lparr>ep_rowset = Some seg_A, ep_endpoint = START, ep_slice = [97]\<rparr>,
         \<lparr>ep_rowset = Some seg_B, ep_endpoint = START, ep_slice = [98]\<rparr>,
         \<lparr>ep_rowset = Some seg_A, ep_endpoint = STOP, ep_slice = [99]\<rparr>,
         \<lparr>ep_rowset = Some seg_B, ep_endpoint = STOP, ep_slice = [100]\<rparr>]"
    by (simp add: index_ABM_def)
  with endpoint_sequence [OF h1] h1 show ?thesis
    by blast
qed

text \<open>
  Claim C7 (single initialization).  An index that a successful \<^verbatim>\<open>Reset\<close> has produced
  is initialized, and calling \<^verbatim>\<open>Reset\<close> on it again, with any input, ends in the failed
  \<^verbatim>\<open>CHECK\<close>: no status is returned and no rebuilt index exists.
\<close>

theorem Reset_twice_rejected:
  assumes "Reset t0 rowsets0 = Inr (Status_OK, t)"
  shows "m_initted t \<and> Reset t rowsets = Inl CheckFailed"
proof -
  from Reset_success_D [OF assms] have "t = built t0 rowsets0" by simp
  then have "m_initted t" by (simp add: built_initted)
  then show ?thesis by (simp add: Reset_initted)
qed

theorem Reset_twice_rejected_witness:
  "Reset RowSetTree_new [seg_A, seg_B, seg_M] = Inr (Status_OK, index_ABM)
   \<and> Reset index_ABM [seg_A] = Inl CheckFailed \<and> Reset index_ABM [] = Inl CheckFailed"
proof -
  have h1: "Reset RowSetTree_new [seg_A, seg_B, seg_M] = Inr (Status_OK, index_ABM)"
    by (rule sample_Reset)
  from Reset_twice_rejected [OF h1, of "[seg_A]"] Reset_twice_rejected [OF h1, of "[]"] h1
  show ?thesis by simp
qed

text \<open>
  Claim C8 (NotSupported is not an error).  For a segment \<open>u\<close> whose bounds query answers
  NotSupported, one round of the loop appends \<open>u\<close> to the unbounded list, leaves the
  entries and the endpoints as they were, and goes on with the remaining segments.  If
  moreover the index is uninitialized and no input segment fails with another error,
  \<^verbatim>\<open>Reset\<close> returns OK, \<open>u\<close> is on the unbounded list, and neither a bounded entry nor
  an endpoint refers to \<open>u\<close>.
\<close>

theorem NotSupported_not_an_error:
  assumes "\<not> m_initted t" and "\<forall>r\<in>set rowsets. \<not> bounds_failed r"
    and "u \<in> set rowsets" and "IsNotSupported (fst (GetBounds u))"
  shows "Reset_loop (u # rest) L = Reset_loop rest (L\<lparr>unbounded := unbounded L @ [u]\<rparr>)
       \<and> (\<exists>t'. Reset t rowsets = Inr (Status_OK, t')
             \<and> u \<in> set (m_unbounded_rowsets t')
             \<and> Some u \<notin> rowset ` set (m_entries t')
             \<and> Some u \<notin> ep_rowset ` set (m_key_endpoints t'))"
proof -
  from assms(4) have unb: "is_unbounded u" by (simp add: is_unbounded_def)
  then have nb: "\<not> is_bounded u" by (simp add: is_bounded_def)
  have step: "Reset_loop (u # rest) L = Reset_loop rest (L\<lparr>unbounded := unbounded L @ [u]\<rparr>)"
    using unb by (rule Reset_loop_unbounded)
  have r: "Reset t rowsets = Inr (Status_OK, built t rowsets)"
    using assms(1,2) by (rule Reset_all_good)
  have a: "u \<in> set (m_unbounded_rowsets (built t rowsets))"
    using assms(3) unb by (simp add: built_def)
  have b: "Some u \<notin> rowset ` set (m_entries (built t rowsets))"
    using nb by (auto simp: built_def rowset_entry_of)
  have c: "Some u \<notin> ep_rowset ` set (m_key_endpoints (built t rowsets))"
    using nb by (auto simp: built_def set_std_sort entry_endpoints_def rowset_entry_of)
  from step r a b c show ?thesis by blast
qed

theorem NotSupported_not_an_error_witness:
  "\<not> m_initted RowSetTree_new
   \<and> \<not> bounds_failed seg_A \<and> \<not> bounds_failed seg_B \<and> \<not> bounds_failed seg_M
   \<and> seg_M \<in> set [seg_A, seg_B, seg_M] \<and> IsNotSupported (fst (GetBounds seg_M))
   \<and> Reset RowSetTree_new [seg_A, seg_B, seg_M] = Inr (Status_OK, index_ABM)
   \<and> seg_M \<in> set (m_unbounded_rowsets index_ABM)
   \<and> Some seg_M \<notin> rowset ` set (m_entries index_ABM)
   \<and> Some seg_M \<notin> ep_rowset ` set (m_key_endpoints index_ABM)"
proof -
  have h1: "\<not> m_initted RowSetTree_new" by (rule sample_not_initted)
  have h2: "\<forall>r\<in>set [seg_A, seg_B, seg_M]. \<not> bounds_failed r" by (simp add: sample_status)
  have h3: "seg_M \<in> set [seg_A, seg_B, seg_M]" by simp
  have h4: "IsNotSupported (fst (GetBounds seg_M))"
    using sample_status(3) by (simp add: is_unbounded_def)
  from NotSupported_not_an_error [OF h1 h2 h3 h4] h1 h2 h3 h4 show ?thesis
    by (simp add: sample_Reset)
qed

text \<open>
  Claim C9 (queries append).  On an index built by a successful \<^verbatim>\<open>Reset\<close>, each query
  called with a vector \<open>out\<close> returns \<open>out\<close> followed by what the same query puts into
  an empty vector: the earlier elements keep their positions and the results come after
  them.
\<close>

theorem queries_append:
  assumes "Reset t rowsets = Inr (Status_OK, t')"
  shows "(\<exists>found. FindRowSetsWithKeyInRange t' K [] = Inr found
            \<and> FindRowSetsWithKeyInRange t' K out = Inr (out @ found))
       \<and> (\<exists>found. FindRowSetsIntersectingInterval t' lo hi [] = Inr found
            \<and> FindRowSetsIntersectingInterval t' lo hi out = Inr (out @ found))"
proof -
  from Reset_success_D [OF assms] have t': "t' = built t rowsets" by simp
  show ?thesis
    unfolding t' Find_key_built Find_interval_built by simp
qed

theorem queries_append_witness:
  "Reset RowSetTree_new [seg_A, seg_B, seg_M] = Inr (Status_OK, index_ABM)
   \<and> FindRowSetsWithKeyInRange index_ABM [97] [] = Inr [Some seg_M, Some seg_A]
   \<and> FindRowSetsWithKeyInRange index_ABM [97] [Some seg_X, None] =
        Inr ([Some seg_X, None] @ [Some seg_M, Some seg_A])
   \<and> FindRowSetsIntersectingInterval index_ABM [100] [100] [] = Inr [Some seg_M, Some seg_B]
   \<and> FindRowSetsIntersectingInterval index_ABM [100] [100] [Some seg_X, None] =
        Inr ([Some seg_X, None] @ [Some seg_M, Some seg_B])"
proof -
  have h1: "Reset RowSetTree_new [seg_A, seg_B, seg_M] = Inr (Status_OK, index_ABM)"
    by (rule sample_Reset)
  have q1: "FindRowSetsWithKeyInRange index_ABM [97] [] = Inr [Some seg_M, Some seg_A]"
    by (simp add: sample_point_query key_in_bounds_def sample_rowset compare_def Slice_compare_def)
  have q2: "FindRowSetsIntersectingInterval index_ABM [100] [100] [] = Inr [Some seg_M, Some seg_B]"
    by (simp add: sample_range_query bounds_overlap_def sample_rowset compare_def Slice_compare_def)
  from queries_append [OF h1, of "[97]" "[Some seg_X, None]" "[100]" "[100]"] h1 q1 q2
  show ?thesis by simp
qed

text \<open>
  Claim C10 (order of the results).  On an index built by a successful \<^verbatim>\<open>Reset\<close>, what
  each query appends is first the unbounded segments, in their order in the input of
  \<^verbatim>\<open>Reset\<close>, and then a run that holds exactly the matching bounded entries' segments,
  each of them an input segment whose bounds query was OK.
\<close>

theorem result_order:
  assumes "Reset t rowsets = Inr (Status_OK, t')"
  shows "(\<exists>bounded. FindRowSetsWithKeyInRange t' K out =
              Inr (out @ map Some (filter (\<lambda>r. IsNotSupported (fst (GetBounds r))) rowsets) @ bounded)
            \<and> mset bounded = mset (map rowset (filter (key_in_bounds K) (m_entries t')))
            \<and> (\<forall>b\<in>set bounded. \<exists>r\<in>set rowsets. b = Some r \<and> ok (fst (GetBounds r))))
       \<and> (\<exists>bounded. FindRowSetsIntersectingInterval t' lo hi out =
              Inr (out @ map Some (filter (\<lambda>r. IsNotSupported (fst (GetBounds r))) rowsets) @ bounded)
            \<and> mset bounded = mset (map rowset (filter (bounds_overlap lo hi) (m_entries t')))
            \<and> (\<forall>b\<in>set bounded. \<exists>r\<in>set rowsets. b = Some r \<and> ok (fst (GetBounds r))))"
proof -
  from Reset_success_D [OF assms] have t': "t' = built t rowsets" by simp
  have unb: "(\<lambda>r. IsNotSupported (fst (GetBounds r))) = is_unbounded"
    by (simp add: is_unbounded_def fun_eq_iff)
  have e: "m_entries t' = map entry_of (filter is_bounded rowsets)"
    by (simp add: t' built_def)
  have from_input: "\<forall>b\<in>set (map rowset (filter P (map entry_of (filter is_bounded rowsets)))).
                      \<exists>r\<in>set rowsets. b = Some r \<and> ok (fst (GetBounds r))" for P
    by (auto simp: rowset_entry_of is_bounded_iff)
  have p: "\<exists>bounded. FindRowSetsWithKeyInRange t' K out =
              Inr (out @ map Some (filter is_unbounded rowsets) @ bounded)
            \<and> mset bounded = mset (map rowset (filter (key_in_bounds K) (m_entries t')))
            \<and> (\<forall>b\<in>set bounded. \<exists>r\<in>set rowsets. b = Some r \<and> ok (fst (GetBounds r)))"
    unfolding e using from_input [of "key_in_bounds K"]
    by (intro exI [of _ "map rowset (filter (key_in_bounds K) (map entry_of (filter is_bounded rowsets)))"])
       (simp add: t' Find_key_built)
  have q: "\<exists>bounded. FindRowSetsIntersectingInterval t' lo hi out =
              Inr (out @ map Some (filter is_unbounded rowsets) @ bounded)
            \<and> mset bounded = mset (map rowset (filter (bounds_overlap lo hi) (m_entries t')))
            \<and> (\<forall>b\<in>set bounded. \<exists>r\<in>set rowsets. b = Some r \<and> ok (fst (GetBounds r)))"
    unfolding e using from_input [of "bounds_overlap lo hi"]
    by (intro exI [of _ "map rowset (filter (bounds_overlap lo hi) (map entry_of (filter is_bounded rowsets)))"])
       (simp add: t' Find_interval_built)
  from p q show ?thesis unfolding unb by blast
qed


theorem result_order_witness:
  "Reset RowSetTree_new [seg_A, seg_B, seg_M] = Inr (Status_OK, index_ABM)
   \<and> (\<exists>bounded. FindRowSetsWithKeyInRange index_ABM [98] [None] =
                    Inr ([None] @ [Some seg_M] @ bounded)
          \<and> mset bounded = {#Some seg_A, Some seg_B#})
   \<and> (\<exists>bounded. FindRowSetsIntersectingInterval index_ABM [97] [97, 0] [None] =
                    Inr ([None] @ [Some seg_M] @ bounded)
          \<and> mset bounded = {#Some seg_A#})
   \<and> FindRowSetsWithKeyInRange index_ABM [98] [None] =
        Inr [None, Some seg_M, Some seg_A, Some seg_B]
   \<and> FindRowSetsIntersectingInterval index_ABM [97] [97, 0] [None] =
        Inr [None, Some seg_M, Some seg_A]"
proof -
  have h1: "Reset RowSetTree_new [seg_A, seg_B, seg_M] = Inr (Status_OK, index_ABM)"
    by (rule sample_Reset)
  have u: "filter (\<lambda>r. IsNotSupported (fst (GetBounds r))) [seg_A, seg_B, seg_M] = [seg_M]"
    using sample_status by (simp add: is_unbounded_def)
  have m1: "map rowset (filter (key_in_bounds [98]) (m_entries index_ABM)) =
              [Some seg_A, Some seg_B]"
    by (simp add: index_ABM_def key_in_bounds_def sample_rowset compare_def Slice_compare_def)
  have m2: "map rowset (filter (bounds_overlap [97] [97, 0]) (m_entries index_ABM)) = [Some seg_A]"
    by (simp add: index_ABM_def bounds_overlap_def sample_rowset compare_def Slice_compare_def)
  note r = result_order [OF h1, of "[98]" "[None]" "[97]" "[97, 0]", unfolded u m1 m2]
  from r [THEN conjunct1] obtain b1 where
    b1: "FindRowSetsWithKeyInRange index_ABM [98] [None] = Inr ([None] @ map Some [seg_M] @ b1)"
      "mset b1 = mset [Some seg_A, Some seg_B]"
    by (elim exE conjE)
  from r [THEN conjunct2] obtain b2 where
    b2: "FindRowSetsIntersectingInterval index_ABM [97] [97, 0] [None] =
           Inr ([None] @ map Some [seg_M] @ b2)"
      "mset b2 = mset [Some seg_A]"
    by (elim exE conjE)
  have p1: "\<exists>bounded. FindRowSetsWithKeyInRange index_ABM [98] [None] =
                    Inr ([None] @ [Some seg_M] @ bounded)
          \<and> mset bounded = {#Some seg_A, Some seg_B#}"
    using b1 by (intro exI [of _ b1]) simp
  have p2: "\<exists>bounded. FindRowSetsIntersectingInterval index_ABM [97] [97, 0] [None] =
                    Inr ([None] @ [Some seg_M] @ bounded)
          \<and> mset bounded = {#Some seg_A#}"
    using b2 by (intro exI [of _ b2]) simp
  have q1: "FindRowSetsWithKeyInRange index_ABM [98] [None] =
              Inr [None, Some seg_M, Some seg_A, Some seg_B]"
    by (simp add: sample_point_query key_in_bounds_def sample_rowset compare_def Slice_compare_def)
  have q2: "FindRowSetsIntersectingInterval index_ABM [97] [97, 0] [None] =
              Inr [None, Some seg_M, Some seg_A]"
    by (simp add: sample_range_query bounds_overlap_def sample_rowset compare_def Slice_compare_def)
  from h1 p1 p2 q1 q2 show ?thesis
    by (intro conjI)
qed

end
